theory Spec2Isabelle
  imports Main "HOL-Library.Sublist"
begin

section \<open>The attachment processor: collect, upload\<close>

text \<open>
  A shallow embedding of \<^verbatim>\<open>main.go\<close>: the export parser
  (\<^verbatim>\<open>processAttachments\<close>), the two remote listers, the \<^verbatim>\<open>collect\<close>
  command and the \<^verbatim>\<open>upload\<close> command, the latter in its two versions. Strings are
  byte strings, Go's \<^verbatim>\<open>int\<close> and \<^verbatim>\<open>int64\<close> are both 64 bits wide (a 64-bit
  platform), and every file-system or network call is represented by its outcome, which
  the environment chooses.
\<close>

subsection \<open>Library functions of Go used by the parser\<close>

text \<open>
  \<^verbatim>\<open>strings.Split(s, sep)\<close> for a non-empty separator: the pieces of \<open>s\<close> between the
  leftmost, non-overlapping occurrences of \<open>sep\<close>; never the empty list. The program
  calls it only with the literals \<^verbatim>\<open>"/"\<close>, \<^verbatim>\<open>"#"\<close> and
  \<^verbatim>\<open>"issuecomment-"\<close>.
\<close>

function split_from :: "string \<Rightarrow> string \<Rightarrow> string \<Rightarrow> string list" where
  "split_from sep cur [] = [cur]"
| "split_from sep cur (c # cs) =
     (if sep \<noteq> [] \<and> prefix sep (c # cs)
      then cur # split_from sep [] (drop (length sep) (c # cs))
      else split_from sep (cur @ [c]) cs)"
  by pat_completeness auto
termination
  by (relation "measure (\<lambda>(sep, cur, s). length s)") auto

definition Split :: "string \<Rightarrow> string \<Rightarrow> string list" where
  "Split s sep = split_from sep [] s"

text \<open>\<^verbatim>\<open>strings.Join(elems, sep)\<close>.\<close>

fun Join :: "string list \<Rightarrow> string \<Rightarrow> string" where
  "Join [] sep = []"
| "Join [x] sep = x"
| "Join (x # y # ys) sep = x @ sep @ Join (y # ys) sep"

text \<open>
  \<^verbatim>\<open>strconv.ParseInt(s, 10, 64)\<close>: an optional sign, then \<^verbatim>\<open>ParseUint\<close> on the rest
  and the range check against \<open>2 ^ 63\<close>. \<^verbatim>\<open>ParseUint\<close> reads the bytes left to right;
  a byte outside \<^verbatim>\<open>'0'\<close> to \<^verbatim>\<open>'9'\<close> is a syntax error, a value beyond \<open>2 ^ 64 - 1\<close> a range
  error, whichever comes first. The unsigned 64-bit accumulator is an integer here, with
  the two overflow checks of the library written out.
\<close>

datatype num_error = ErrSyntax | ErrRange

definition digit :: "char \<Rightarrow> int option" where
  "digit c =
     (let b = (of_char c :: int)
      in if of_char CHR ''0'' \<le> b \<and> b \<le> of_char CHR ''9''
         then Some (b - of_char CHR ''0'') else None)"

definition maxUint64 :: int where
  "maxUint64 = 2 ^ 64 - 1"

fun parse_digits :: "int \<Rightarrow> string \<Rightarrow> num_error + int" where
  "parse_digits n [] = Inr n"
| "parse_digits n (c # cs) =
     (case digit c of
        None \<Rightarrow> Inl ErrSyntax
      | Some d \<Rightarrow>
          if n \<ge> maxUint64 div 10 + 1 then Inl ErrRange
          else if n * 10 + d > maxUint64 then Inl ErrRange
          else parse_digits (n * 10 + d) cs)"

definition ParseUint :: "string \<Rightarrow> num_error + int" where
  "ParseUint s = (if s = [] then Inl ErrSyntax else parse_digits 0 s)"

definition ParseInt :: "string \<Rightarrow> num_error + int" where
  "ParseInt s =
     (if s = [] then Inl ErrSyntax
      else
        let neg = (hd s = CHR ''-'');
            body = (if hd s = CHR ''+'' \<or> hd s = CHR ''-'' then tl s else s)
        in case ParseUint body of
             Inl ErrSyntax \<Rightarrow> Inl ErrSyntax
           | Inl ErrRange \<Rightarrow> Inl ErrRange
           | Inr un \<Rightarrow>
               if \<not> neg \<and> un \<ge> 2 ^ 63 then Inl ErrRange
               else if neg \<and> un > 2 ^ 63 then Inl ErrRange
               else Inr (if neg then - un else un))"

subsection \<open>The data model\<close>

record attachment =
  Type :: string
  URL :: string
  IssueNumber :: int
  CommentNumber :: int
  Path :: string

record issue =
  issue_URL :: string
  Number :: int

record ticket =
  Key :: string
  Uploaded :: bool

record database =
  Attachments :: "attachment list"
  Issues :: "string \<rightharpoonup> issue"
  Tickets :: "string \<rightharpoonup> ticket"

text \<open>
  What a function of the program can end with other than success: an error value it
  returns (the constructors follow the format strings of \<^verbatim>\<open>fmt.Errorf\<close> and carry
  their arguments), or a run-time panic, which is no error value and ends the process.
\<close>

datatype panic = SliceBoundsOutOfRange | IndexOutOfRange | NilPointerDereference | LogPanic

datatype error =
    ErrorReadingDirectory
  | ErrorReadingFile string
  | ErrorUnmarshallingJSON string
  | ErrorParsingIssueNumber string num_error
  | ErrorParsingCommentNumber string num_error
  | RepositoryNotFound string string
  | FailedListingIssues string string string
  | FailedSearchingTickets string string
  | FailedCreatingStagingDirectory
  | FailedCheckingStagingEmpty
  | FailedExpandingTarball
  | StagingEmptyButSkipArchive
  | FailedProcessingAttachments error
  | FailedProcessingIssues error
  | FailedProcessingTickets error
  | FailedMarshallingDatabase
  | FailedReadingDatabase
  | FailedUnmarshallingDatabase
  | FailedOpeningAttachment
  | FailedUploadingAttachment
  | FailedWritingDatabase

datatype failure = Error error | Panic panic

subsection \<open>The export parser\<close>

text \<open>One entry of an export-record file, as \<^verbatim>\<open>json.Unmarshal\<close> delivers it.\<close>

record export_record =
  Issue :: string
  IssueComment :: string
  AssetURL :: string

text \<open>
  The relative path of an attachment (lines 241-242 and 262-263 of \<^verbatim>\<open>main.go\<close>):
  \<^verbatim>\<open>strings.Join(strings.Split(url, "/")[3:], "/")\<close>. The slice expression panics
  when the list has fewer than three elements.
\<close>

definition assetPath :: "string \<Rightarrow> failure + string" where
  "assetPath url =
     (let pathTokens = Split url ''/''
      in if length pathTokens < 3 then Inl (Panic SliceBoundsOutOfRange)
         else Inr (Join (drop 3 pathTokens) ''/''))"

text \<open>
  The body of the loop over the entries of one file (lines 235-272): the attachment to
  append, if any. An index expression \<open>xs[1]\<close> panics on a list of one element.
\<close>

definition processRecord :: "export_record \<Rightarrow> failure + attachment option" where
  "processRecord r =
     (if Issue r \<noteq> [] then
        (let issueTokens = Split (Issue r) ''/''
         in case ParseInt (last issueTokens) of
              Inl e \<Rightarrow> Inl (Error (ErrorParsingIssueNumber (Issue r) e))
            | Inr issueNumber \<Rightarrow>
                (case assetPath (AssetURL r) of
                   Inl f \<Rightarrow> Inl f
                 | Inr path \<Rightarrow>
                     Inr (Some \<lparr>Type = ''issue'', URL = Issue r, IssueNumber = issueNumber,
                                CommentNumber = 0, Path = path\<rparr>)))
      else if IssueComment r \<noteq> [] then
        (let issueTokens = Split (IssueComment r) ''/''
         in case ParseInt (hd (Split (last issueTokens) ''#'')) of
              Inl e \<Rightarrow> Inl (Error (ErrorParsingIssueNumber (IssueComment r) e))
            | Inr issueNumber \<Rightarrow>
                (let commentTokens = Split (IssueComment r) ''#'';
                     markerTokens = Split (last commentTokens) ''issuecomment-''
                 in if length markerTokens < 2 then Inl (Panic IndexOutOfRange)
                    else
                      (case ParseInt (markerTokens ! 1) of
                         Inl e \<Rightarrow> Inl (Error (ErrorParsingCommentNumber (IssueComment r) e))
                       | Inr commentNumber \<Rightarrow>
                           (case assetPath (AssetURL r) of
                              Inl f \<Rightarrow> Inl f
                            | Inr path \<Rightarrow>
                                Inr (Some \<lparr>Type = ''issue_comment'', URL = IssueComment r,
                                           IssueNumber = issueNumber,
                                           CommentNumber = commentNumber, Path = path\<rparr>)))))
      else Inr None)"

text \<open>
  The loop over the entries of one file. The database is changed in place, so the
  attachments appended before a failure stay in it.
\<close>

fun processRecords :: "export_record list \<Rightarrow> database \<Rightarrow> failure option \<times> database" where
  "processRecords [] db = (None, db)"
| "processRecords (r # rs) db =
     (case processRecord r of
        Inl f \<Rightarrow> (Some f, db)
      | Inr None \<Rightarrow> processRecords rs db
      | Inr (Some entry) \<Rightarrow>
          processRecords rs (db\<lparr>Attachments := Attachments db @ [entry]\<rparr>))"

text \<open>
  A file of the staging directory: what \<^verbatim>\<open>os.ReadFile\<close> followed by
  \<^verbatim>\<open>json.Unmarshal\<close> gives for it.
\<close>

datatype file_content = Unreadable | NotJSON | Records "export_record list"

definition considered :: "string \<Rightarrow> bool" where
  "considered name \<longleftrightarrow> prefix ''attachments'' name \<and> suffix ''.json'' name"

fun processEntries :: "(string \<times> file_content) list \<Rightarrow> database \<Rightarrow> failure option \<times> database" where
  "processEntries [] db = (None, db)"
| "processEntries ((name, content) # entries) db =
     (if considered name then
        (case content of
           Unreadable \<Rightarrow> (Some (Error (ErrorReadingFile (''stage/'' @ name))), db)
         | NotJSON \<Rightarrow> (Some (Error (ErrorUnmarshallingJSON (''stage/'' @ name))), db)
         | Records attachments \<Rightarrow>
             (case processRecords attachments db of
                (Some f, db') \<Rightarrow> (Some f, db')
              | (None, db') \<Rightarrow> processEntries entries db'))
      else processEntries entries db)"

text \<open>
  \<^verbatim>\<open>processAttachments\<close>: \<open>None\<close> for the staging directory when \<^verbatim>\<open>os.ReadDir\<close> fails,
  else its entries in the order \<^verbatim>\<open>os.ReadDir\<close> lists them.
\<close>

definition processAttachments ::
  "(string \<times> file_content) list option \<Rightarrow> database \<Rightarrow> failure option \<times> database" where
  "processAttachments stage db =
     (case stage of
        None \<Rightarrow> (Some (Error ErrorReadingDirectory), db)
      | Some entries \<Rightarrow> processEntries entries db)"

subsection \<open>The remote listers\<close>

text \<open>
  A paginated listing ends in a return value, or it is still asking for pages when the
  replies written down for the server are used up.
\<close>

datatype completion = Returns "failure option" | Unfinished

text \<open>
  \<^verbatim>\<open>client.Issues.ListByRepo\<close> answers with a page of issues and the number of the
  next page (0 on the last page), or with an error; the response that comes with an
  error is absent when the request never got an answer, else it has an HTTP status.
\<close>

record github_issue =
  GetHTMLURL :: string
  GetNumber :: int
  GetTitle :: string

datatype github_reply =
    GitHubPage "github_issue list" nat
  | GitHubFailure "nat option" string

definition addIssue :: "database \<Rightarrow> github_issue \<Rightarrow> database" where
  "addIssue db i =
     db\<lparr>Issues := (Issues db)(GetTitle i \<mapsto> \<lparr>issue_URL = GetHTMLURL i, Number = GetNumber i\<rparr>)\<rparr>"

text \<open>
  The loop of \<^verbatim>\<open>processIssues\<close> (lines 288-309). The replies are those of the
  server to the successive requests; the list of page numbers requested so far is kept
  as a trace.
\<close>

fun listIssues ::
  "string \<Rightarrow> string \<Rightarrow> github_reply list \<Rightarrow> nat \<Rightarrow> database \<Rightarrow> nat list
     \<Rightarrow> completion \<times> database \<times> nat list" where
  "listIssues org repo [] page db requested = (Unfinished, db, requested)"
| "listIssues org repo (reply # replies) page db requested =
     (case reply of
        GitHubFailure resp err \<Rightarrow>
          (case resp of
             None \<Rightarrow> (Returns (Some (Panic NilPointerDereference)), db, requested @ [page])
           | Some StatusCode \<Rightarrow>
               if StatusCode = 404
               then (Returns (Some (Error (RepositoryNotFound org repo))), db, requested @ [page])
               else (Returns (Some (Error (FailedListingIssues org repo err))), db,
                     requested @ [page]))
      | GitHubPage issues NextPage \<Rightarrow>
          (let db' = foldl addIssue db issues
           in if NextPage = 0 then (Returns None, db', requested @ [page])
              else listIssues org repo replies NextPage db' (requested @ [page])))"

definition processIssues ::
  "github_reply list \<Rightarrow> string \<Rightarrow> string \<Rightarrow> database \<Rightarrow> completion \<times> database \<times> nat list" where
  "processIssues client org repo db = listIssues org repo client 1 db []"

text \<open>
  \<^verbatim>\<open>client.Issue.Search\<close> answers with a page of tickets and the \<^verbatim>\<open>StartAt\<close>,
  \<^verbatim>\<open>MaxResults\<close> and \<^verbatim>\<open>Total\<close> of the response, or with an error (the status of
  its response, if any, is carried along; the program does not read it). The client is
  nil when \<^verbatim>\<open>jira.NewClient\<close> has failed. The \<^verbatim>\<open>Fields\<close> of a ticket is a
  pointer, nil when the reply carries no fields; reading \<^verbatim>\<open>Fields.Summary\<close>
  through a nil pointer panics.
\<close>

record jira_fields =
  Summary :: string

record jira_issue =
  jira_Key :: string
  Fields :: "jira_fields option"

datatype jira_reply =
    JiraPage "jira_issue list" int int int
  | JiraFailure "nat option" string

datatype jira_client = NilClient | JiraClient "jira_reply list"

text \<open>
  The sum of two values of Go's 64-bit \<^verbatim>\<open>int\<close>: it wraps around.
\<close>

definition addInt :: "int \<Rightarrow> int \<Rightarrow> int" where
  "addInt a b = (a + b + 2 ^ 63) mod 2 ^ 64 - 2 ^ 63"

text \<open>
  The loop over the tickets of one page (lines 339-345); the tickets before one without
  fields are in the index when the panic comes.
\<close>

fun addTickets :: "database \<Rightarrow> jira_issue list \<Rightarrow> failure option \<times> database" where
  "addTickets db [] = (None, db)"
| "addTickets db (i # issues) =
     (case Fields i of
        None \<Rightarrow> (Some (Panic NilPointerDereference), db)
      | Some issueFields \<Rightarrow>
          addTickets
            (db\<lparr>Tickets := (Tickets db)(Summary issueFields \<mapsto> \<lparr>Key = jira_Key i, Uploaded = False\<rparr>)\<rparr>)
            issues)"

text \<open>The loop of \<^verbatim>\<open>processTickets\<close> (lines 333-351).\<close>

fun searchTickets ::
  "string \<Rightarrow> jira_reply list \<Rightarrow> int \<Rightarrow> database \<Rightarrow> int list
     \<Rightarrow> completion \<times> database \<times> int list" where
  "searchTickets key [] StartAt db requested = (Unfinished, db, requested)"
| "searchTickets key (reply # replies) StartAt db requested =
     (case reply of
        JiraFailure resp err \<Rightarrow>
          (Returns (Some (Error (FailedSearchingTickets key err))), db, requested @ [StartAt])
      | JiraPage issues respStartAt respMaxResults respTotal \<Rightarrow>
          (case addTickets db issues of
             (Some f, db') \<Rightarrow> (Returns (Some f), db', requested @ [StartAt])
           | (None, db') \<Rightarrow>
               if addInt respStartAt respMaxResults \<ge> respTotal
               then (Returns None, db', requested @ [StartAt])
               else searchTickets key replies (addInt respStartAt respMaxResults) db'
                      (requested @ [StartAt])))"

definition processTickets ::
  "jira_client \<Rightarrow> string \<Rightarrow> database \<Rightarrow> completion \<times> database \<times> int list" where
  "processTickets client key db =
     (case client of
        NilClient \<Rightarrow> (Returns (Some (Panic NilPointerDereference)), db, [])
      | JiraClient replies \<Rightarrow> searchTickets key replies 0 db [])"

subsection \<open>The collect command\<close>

text \<open>
  The flags of the command and the outcome of every call it makes to the world outside:
  whether \<^verbatim>\<open>jira.NewClient\<close> gave a client, whether the staging directory exists and
  whether creating it fails, what \<^verbatim>\<open>IsEmpty\<close> says (\<open>None\<close> for an error), whether
  expanding the archive fails, what the staging directory holds when the parser reads
  it, the replies of the two servers, and whether marshalling and writing the index
  fail.
\<close>

record collect_env =
  skipArchive :: bool
  org :: string
  repo :: string
  jiraKey :: string
  jira :: jira_client
  gh :: "github_reply list"
  stageExists :: bool
  mkdirFails :: bool
  empty :: "bool option"
  expandFails :: bool
  stage :: "(string \<times> file_content) list option"
  marshalFails :: bool
  writeFails :: bool

text \<open>
  What a run of \<^verbatim>\<open>collect\<close> leaves behind: how it ended, whether the archive was
  expanded, the pages asked of the two servers, and the index in
  \<^verbatim>\<open>database.json\<close> if one was written.
\<close>

record collect_result =
  returned :: completion
  expanded :: bool
  githubRequests :: "nat list"
  jiraRequests :: "int list"
  written :: "database option"

definition stopped :: "failure \<Rightarrow> bool \<Rightarrow> nat list \<Rightarrow> int list \<Rightarrow> collect_result" where
  "stopped f ex g j =
     \<lparr>returned = Returns (Some f), expanded = ex, githubRequests = g, jiraRequests = j,
       written = None\<rparr>"

definition wrapped :: "(error \<Rightarrow> error) \<Rightarrow> failure \<Rightarrow> failure" where
  "wrapped w f = (case f of Error e \<Rightarrow> Error (w e) | Panic p \<Rightarrow> Panic p)"

text \<open>
  Lines 401-432: the three processing stages and the write of the index, whose error
  is assigned and never read.
\<close>

definition collectStages :: "collect_env \<Rightarrow> bool \<Rightarrow> collect_result" where
  "collectStages env ex =
     (let db = \<lparr>Attachments = [], Issues = Map.empty, Tickets = Map.empty\<rparr>
      in case processAttachments (stage env) db of
           (Some f, db1) \<Rightarrow> stopped (wrapped FailedProcessingAttachments f) ex [] []
         | (None, db1) \<Rightarrow>
             (case processIssues (gh env) (org env) (repo env) db1 of
                (Unfinished, db2, g) \<Rightarrow>
                  \<lparr>returned = Unfinished, expanded = ex, githubRequests = g,
                    jiraRequests = [], written = None\<rparr>
              | (Returns (Some f), db2, g) \<Rightarrow> stopped (wrapped FailedProcessingIssues f) ex g []
              | (Returns None, db2, g) \<Rightarrow>
                  (case processTickets (jira env) (jiraKey env) db2 of
                     (Unfinished, db3, j) \<Rightarrow>
                       \<lparr>returned = Unfinished, expanded = ex, githubRequests = g,
                         jiraRequests = j, written = None\<rparr>
                   | (Returns (Some f), db3, j) \<Rightarrow>
                       stopped (wrapped FailedProcessingTickets f) ex g j
                   | (Returns None, db3, j) \<Rightarrow>
                       if marshalFails env then stopped (Error FailedMarshallingDatabase) ex g j
                       else \<lparr>returned = Returns None, expanded = ex, githubRequests = g,
                              jiraRequests = j,
                              written = (if writeFails env then None else Some db3)\<rparr>)))"

text \<open>Lines 366-399, then the stages.\<close>

definition collect :: "collect_env \<Rightarrow> collect_result" where
  "collect env =
     (if \<not> stageExists env \<and> mkdirFails env
      then stopped (Error FailedCreatingStagingDirectory) False [] []
      else case empty env of
             None \<Rightarrow> stopped (Error FailedCheckingStagingEmpty) False [] []
           | Some isEmpty \<Rightarrow>
               if \<not> skipArchive env then
                 (if isEmpty then
                    (if expandFails env then stopped (Error FailedExpandingTarball) True [] []
                     else collectStages env True)
                  else collectStages env False)
               else
                 (if isEmpty then stopped (Error StagingEmptyButSkipArchive) False [] []
                  else collectStages env False))"

subsection \<open>The upload command\<close>

text \<open>
  The file \<^verbatim>\<open>database.json\<close>: missing, not the JSON of an index, or an index. The
  entries of the attachment list and the values of the two maps of an index are taken to
  be non-nil, as they are in every index that \<^verbatim>\<open>collect\<close> writes.
\<close>

datatype index_file = Missing | Garbled | Index database

text \<open>
  What happens to one attachment that the loop tries to transfer: \<^verbatim>\<open>os.Open\<close> fails;
  \<^verbatim>\<open>PostAttachment\<close> returns an error; it returns a status other than 200; or the
  transfer succeeds, after which marshalling the index may fail, writing it may fail
  (leaving the old file, or a damaged one), or the index is written.
\<close>

datatype outcome =
    OpenFails | PostFails | BadStatus
  | MarshalFails | WriteFailsKeeping | WriteFailsTruncating | Transferred

text \<open>
  One entry of the trace of a run: the title of the ticket the loop is at, the ticket key
  the attachment goes to, the attachment's relative path (the file opened is
  \<^verbatim>\<open>filepath.Join("stage", path)\<close>), the name it is posted under, and the outcome.
\<close>

datatype attempt = Attempt string string string string outcome

fun attempt_title :: "attempt \<Rightarrow> string" where
  "attempt_title (Attempt title key path name out) = title"

record upload_state =
  inMemory :: database
  persisted :: index_file
  trace :: "attempt list"

text \<open>
  The mark-as-uploaded step. Line 483 of \<^verbatim>\<open>main.go\<close> is
  \<^verbatim>\<open>db.Tickets[title].Uploaded = true\<close>; line 433 of the other version of the file is
  \<^verbatim>\<open>db.Tickets[ticket.Key].Uploaded = true\<close>. A key that is not in the map gives
  the nil pointer, and the assignment through it panics.
\<close>

definition markTitle :: "string \<Rightarrow> ticket \<Rightarrow> database \<Rightarrow> failure + database" where
  "markTitle title ticket d =
     (case Tickets d title of
        None \<Rightarrow> Inl (Panic NilPointerDereference)
      | Some t \<Rightarrow> Inr (d\<lparr>Tickets := (Tickets d)(title \<mapsto> t\<lparr>Uploaded := True\<rparr>)\<rparr>))"

definition markKey :: "string \<Rightarrow> ticket \<Rightarrow> database \<Rightarrow> failure + database" where
  "markKey title ticket d =
     (case Tickets d (Key ticket) of
        None \<Rightarrow> Inl (Panic NilPointerDereference)
      | Some t \<Rightarrow> Inr (d\<lparr>Tickets := (Tickets d)(Key ticket \<mapsto> t\<lparr>Uploaded := True\<rparr>)\<rparr>))"

text \<open>
  The loop over \<^verbatim>\<open>db.Attachments\<close> for one ticket (lines 462-494). The environment
  gives the outcome of the \<open>n\<close>-th attempt of the run.
\<close>

fun uploadAttachments ::
  "(string \<Rightarrow> ticket \<Rightarrow> database \<Rightarrow> failure + database) \<Rightarrow> (nat \<Rightarrow> outcome) \<Rightarrow> string
     \<Rightarrow> ticket \<Rightarrow> issue \<Rightarrow> attachment list \<Rightarrow> upload_state \<Rightarrow> failure option \<times> upload_state" where
  "uploadAttachments mark world title ticket issue [] s = (None, s)"
| "uploadAttachments mark world title ticket issue (a # as) s =
     (if IssueNumber a = Number issue then
        (let out = world (length (trace s));
             name = last (Split (Path a) ''/'');
             s1 = s\<lparr>trace := trace s @ [Attempt title (Key ticket) (Path a) name out]\<rparr>
         in if out = OpenFails then (Some (Error FailedOpeningAttachment), s1)
            else if out = PostFails \<or> out = BadStatus
            then (Some (Error FailedUploadingAttachment), s1)
            else
              (case mark title ticket (inMemory s1) of
                 Inl f \<Rightarrow> (Some f, s1)
               | Inr d \<Rightarrow>
                   if out = MarshalFails
                   then (Some (Error FailedMarshallingDatabase), s1\<lparr>inMemory := d\<rparr>)
                   else if out = WriteFailsKeeping
                   then (Some (Error FailedWritingDatabase), s1\<lparr>inMemory := d\<rparr>)
                   else if out = WriteFailsTruncating
                   then (Some (Error FailedWritingDatabase), s1\<lparr>inMemory := d, persisted := Garbled\<rparr>)
                   else uploadAttachments mark world title ticket issue as
                          (s1\<lparr>inMemory := d, persisted := Index d\<rparr>)))
      else uploadAttachments mark world title ticket issue as s)"

text \<open>
  The loop over \<^verbatim>\<open>db.Tickets\<close> (lines 456-496). Go fixes no order for the keys of a
  map; \<open>titles\<close> are the keys in the order of this run.
\<close>

fun uploadTickets ::
  "(string \<Rightarrow> ticket \<Rightarrow> database \<Rightarrow> failure + database) \<Rightarrow> (nat \<Rightarrow> outcome) \<Rightarrow> string list
     \<Rightarrow> upload_state \<Rightarrow> failure option \<times> upload_state" where
  "uploadTickets mark world [] s = (None, s)"
| "uploadTickets mark world (title # titles) s =
     (case Tickets (inMemory s) title of
        None \<Rightarrow> uploadTickets mark world titles s
      | Some ticket \<Rightarrow>
          if Uploaded ticket then uploadTickets mark world titles s
          else
            (case Issues (inMemory s) title of
               None \<Rightarrow> uploadTickets mark world titles s
             | Some issue \<Rightarrow>
                 (case uploadAttachments mark world title ticket issue (Attachments (inMemory s)) s of
                    (Some f, s') \<Rightarrow> (Some f, s')
                  | (None, s') \<Rightarrow> uploadTickets mark world titles s')))"

record upload_env =
  clientFails :: bool
  titles :: "string list"
  world :: "nat \<Rightarrow> outcome"

definition upload_with ::
  "(string \<Rightarrow> ticket \<Rightarrow> database \<Rightarrow> failure + database) \<Rightarrow> upload_env \<Rightarrow> index_file
     \<Rightarrow> failure option \<times> index_file \<times> attempt list" where
  "upload_with mark env f =
     (if clientFails env then (Some (Panic LogPanic), f, [])
      else case f of
             Missing \<Rightarrow> (Some (Error FailedReadingDatabase), f, [])
           | Garbled \<Rightarrow> (Some (Error FailedUnmarshallingDatabase), f, [])
           | Index d \<Rightarrow>
               (case uploadTickets mark (world env) (titles env) \<lparr>inMemory = d, persisted = f, trace = []\<rparr> of
                  (r, s) \<Rightarrow> (r, persisted s, trace s)))"

text \<open>\<^verbatim>\<open>upload\<close> of \<^verbatim>\<open>main.go\<close>, and \<^verbatim>\<open>upload\<close> of the other version of the file.\<close>

definition upload :: "upload_env \<Rightarrow> index_file \<Rightarrow> failure option \<times> index_file \<times> attempt list" where
  "upload = upload_with markTitle"

definition upload_variant ::
  "upload_env \<Rightarrow> index_file \<Rightarrow> failure option \<times> index_file \<times> attempt list" where
  "upload_variant = upload_with markKey"

text \<open>
  Running \<^verbatim>\<open>upload\<close> again and again on the index the run before left in the file:
  the traces of the runs.
\<close>

fun reruns :: "upload_env list \<Rightarrow> index_file \<Rightarrow> attempt list list" where
  "reruns [] f = []"
| "reruns (env # envs) f =
     (case upload env f of (r, f', tr) \<Rightarrow> tr # reruns envs f')"

text \<open>A ticket of an index that is marked uploaded; one that is there and is not.\<close>

definition uploaded_in :: "database \<Rightarrow> string \<Rightarrow> bool" where
  "uploaded_in d title \<longleftrightarrow> (case Tickets d title of None \<Rightarrow> False | Some t \<Rightarrow> Uploaded t)"

definition pending_in :: "database \<Rightarrow> string \<Rightarrow> bool" where
  "pending_in d title \<longleftrightarrow> (case Tickets d title of None \<Rightarrow> False | Some t \<Rightarrow> \<not> Uploaded t)"

subsection \<open>The integer value of a segment, as the specification words it\<close>

text \<open>
  The integer a string denotes: an optional sign and at least one decimal digit, read in
  base ten. This definition follows the specification's words ("the integer value of the
  final path segment"); the parser's own reading is \<open>ParseInt\<close> above.
\<close>

definition decimal_digits :: "string \<Rightarrow> bool" where
  "decimal_digits s \<longleftrightarrow> s \<noteq> [] \<and> list_all (\<lambda>c. digit c \<noteq> None) s"

definition digits_value :: "int \<Rightarrow> string \<Rightarrow> int" where
  "digits_value n s = foldl (\<lambda>n c. n * 10 + the (digit c)) n s"

definition integer_value :: "string \<Rightarrow> int option" where
  "integer_value s =
     (case s of
        [] \<Rightarrow> None
      | c # cs \<Rightarrow>
          if c = CHR ''-'' then (if decimal_digits cs then Some (- digits_value 0 cs) else None)
          else if c = CHR ''+'' then (if decimal_digits cs then Some (digits_value 0 cs) else None)
          else if decimal_digits s then Some (digits_value 0 s) else None)"

subsection \<open>Auxiliary notions for the properties\<close>

text \<open>
  A reply after which the lister asks for another page: a page, read without a panic,
  that is not the last.
\<close>

fun morePages :: "github_reply \<Rightarrow> bool" where
  "morePages (GitHubPage issues NextPage) \<longleftrightarrow> NextPage \<noteq> 0"
| "morePages (GitHubFailure resp err) \<longleftrightarrow> False"

fun moreTickets :: "jira_reply \<Rightarrow> bool" where
  "moreTickets (JiraPage issues respStartAt respMaxResults respTotal) \<longleftrightarrow>
     list_all (\<lambda>i. Fields i \<noteq> None) issues \<and>
     addInt respStartAt respMaxResults < respTotal"
| "moreTickets (JiraFailure resp err) \<longleftrightarrow> False"

text \<open>
  The tickets of \<open>d\<close> are those of \<open>d0\<close>, and each one marked uploaded in \<open>d0\<close> is
  marked uploaded in \<open>d\<close>; an index file that, if it is readable, holds such an index.
\<close>

definition grows :: "database \<Rightarrow> database \<Rightarrow> bool" where
  "grows d0 d \<longleftrightarrow>
     (\<forall>x. case Tickets d0 x of
            None \<Rightarrow> Tickets d x = None
          | Some t \<Rightarrow> (\<exists>t'. Tickets d x = Some t' \<and> (Uploaded t \<longrightarrow> Uploaded t')))"

definition file_ok :: "database \<Rightarrow> index_file \<Rightarrow> bool" where
  "file_ok d0 f \<longleftrightarrow> (case f of Index d \<Rightarrow> grows d0 d | _ \<Rightarrow> True)"

text \<open>
  Concrete runs: a \<^verbatim>\<open>collect\<close> whose stages all succeed and whose final write fails;
  an index with one uploaded and one pending ticket; an index with one pending ticket
  that has two attachments; an environment in which every transfer succeeds, and one in
  which the second attachment cannot be opened.
\<close>

definition exampleRun :: collect_env where
  "exampleRun = \<lparr>skipArchive = False, org = ''o'', repo = ''r'', jiraKey = ''K'',
           jira = JiraClient [JiraPage [] 0 1000 0], gh = [GitHubPage [] 0],
           stageExists = True, mkdirFails = False, empty = Some False, expandFails = False,
           stage = Some [(''attachments.json'', Records [])], marshalFails = False,
           writeFails = True\<rparr>"

definition index1 :: database where
  "index1 =
     \<lparr>Attachments =
        [\<lparr>Type = ''issue'', URL = ''r/1'', IssueNumber = 1, CommentNumber = 0, Path = ''x/a.png''\<rparr>,
         \<lparr>Type = ''issue'', URL = ''r/2'', IssueNumber = 2, CommentNumber = 0, Path = ''x/b.png''\<rparr>],
      Issues = [''A'' \<mapsto> \<lparr>issue_URL = ''r/1'', Number = 1\<rparr>,
                ''B'' \<mapsto> \<lparr>issue_URL = ''r/2'', Number = 2\<rparr>],
      Tickets = [''A'' \<mapsto> \<lparr>Key = ''K-1'', Uploaded = True\<rparr>,
                 ''B'' \<mapsto> \<lparr>Key = ''K-2'', Uploaded = False\<rparr>]\<rparr>"

definition index2 :: database where
  "index2 =
     \<lparr>Attachments =
        [\<lparr>Type = ''issue'', URL = ''r/42'', IssueNumber = 42, CommentNumber = 0, Path = ''x/a.png''\<rparr>,
         \<lparr>Type = ''issue'', URL = ''r/42'', IssueNumber = 42, CommentNumber = 0, Path = ''x/b.png''\<rparr>],
      Issues = [''T'' \<mapsto> \<lparr>issue_URL = ''r/42'', Number = 42\<rparr>],
      Tickets = [''T'' \<mapsto> \<lparr>Key = ''PROJ-7'', Uploaded = False\<rparr>]\<rparr>"

definition allTransferred :: "string list \<Rightarrow> upload_env" where
  "allTransferred ts = \<lparr>clientFails = False, titles = ts, world = (\<lambda>n. Transferred)\<rparr>"

definition secondOpenFails :: "string list \<Rightarrow> upload_env" where
  "secondOpenFails ts =
     \<lparr>clientFails = False, titles = ts, world = (\<lambda>n. if n = 0 then Transferred else OpenFails)\<rparr>"

section \<open>Properties\<close>

subsection \<open>Splitting and joining\<close>

lemma split_from_nonempty: "split_from sep cur s \<noteq> []"
  by (induction sep cur s rule: split_from.induct) auto

lemma Join_Cons: "ys \<noteq> [] \<Longrightarrow> Join (x # ys) sep = x @ sep @ Join ys sep"
  by (cases ys) auto

lemma Join_split_from: "Join (split_from sep cur s) sep = cur @ s"
proof (induction sep cur s rule: split_from.induct)
  case (1 sep cur)
  then show ?case by simp
next
  case (2 sep cur c cs)
  show ?case
  proof (cases "sep \<noteq> [] \<and> prefix sep (c # cs)")
    case True
    let ?rest = "drop (length sep) (c # cs)"
    have u: "split_from sep cur (c # cs) = cur # split_from sep [] ?rest"
      using True by simp
    have r: "sep @ ?rest = c # cs"
      using True by (metis append_eq_conv_conj prefix_def)
    have "Join (split_from sep [] ?rest) sep = ?rest"
      using 2(1) True by simp
    then have "Join (cur # split_from sep [] ?rest) sep = cur @ sep @ ?rest"
      by (simp only: Join_Cons[OF split_from_nonempty])
    with u r show ?thesis by simp
  next
    case False
    with 2 show ?thesis by auto
  qed
qed

lemma split1_Cons:
  "split_from [c] cur (x # xs) =
     (if x = c then cur # split_from [c] [] xs else split_from [c] (cur @ [x]) xs)"
  by auto

lemma split1_notin: "c \<notin> set s \<Longrightarrow> split_from [c] cur s = [cur @ s]"
  by (induction s arbitrary: cur) (auto simp del: split_from.simps simp add: split_from.simps(1) split1_Cons)

lemma split1_app:
  "c \<notin> set a \<Longrightarrow> split_from [c] cur (a @ c # b) = (cur @ a) # split_from [c] [] b"
  by (induction a arbitrary: cur) (auto simp del: split_from.simps simp add: split_from.simps(1) split1_Cons)



lemma split1_segments:
  "c \<notin> set cur \<Longrightarrow> \<forall>x\<in>set (split_from [c] cur s). c \<notin> set x"
proof (induction s arbitrary: cur)
  case Nil
  then show ?case by simp
next
  case (Cons y ys)
  show ?case
  proof (cases "y = c")
    case True
    with Cons.prems Cons.IH[of "[]"] show ?thesis
      by (simp del: split_from.simps add: split1_Cons)
  next
    case False
    with Cons.prems Cons.IH[of "cur @ [y]"] show ?thesis
      by (simp del: split_from.simps add: split1_Cons)
  qed
qed


lemma split1_Join:
  "xs \<noteq> [] \<Longrightarrow> \<forall>x\<in>set xs. c \<notin> set x \<Longrightarrow> split_from [c] cur (Join xs [c]) = (cur @ hd xs) # tl xs"
proof (induction xs arbitrary: cur)
  case Nil
  then show ?case by simp
next
  case (Cons x xs)
  show ?case
  proof (cases xs)
    case Nil
    with Cons.prems show ?thesis by (simp add: split1_notin split_from.simps(1) del: split_from.simps)
  next
    case (Cons y ys)
    then have "Join (x # xs) [c] = x @ c # Join xs [c]" by simp
    moreover have "split_from [c] [] (Join xs [c]) = xs"
      using Cons.IH[of "[]"] Cons.prems Cons by simp
    ultimately show ?thesis using Cons.prems
      by (simp add: split1_app split_from.simps(1) del: split_from.simps)
  qed
qed





subsection \<open>Parsing integers\<close>

lemma digit_range: "digit c = Some d \<Longrightarrow> 0 \<le> d \<and> d \<le> 9"
  by (auto simp: digit_def Let_def split: if_splits)

lemma digit_sign: "digit CHR ''-'' = None" "digit CHR ''+'' = None"
  by (simp_all add: digit_def Let_def)


lemma digits_value_Nil: "digits_value n [] = n"
  by (simp add: digits_value_def)

lemma digits_value_Cons: "digits_value n (c # cs) = digits_value (n * 10 + the (digit c)) cs"
  by (simp add: digits_value_def)

lemma digits_value_mono:
  "0 \<le> n \<Longrightarrow> list_all (\<lambda>c. digit c \<noteq> None) s \<Longrightarrow> n \<le> digits_value n s"
proof (induction s arbitrary: n)
  case Nil
  then show ?case by (simp add: digits_value_Nil)
next
  case (Cons c cs)
  then obtain d where d: "digit c = Some d" by auto
  then have r: "0 \<le> d" using digit_range by blast
  have "n * 10 + d \<le> digits_value (n * 10 + d) cs"
    using Cons.IH[of "n * 10 + d"] Cons.prems r by simp
  with d r Cons.prems(1) show ?case by (simp add: digits_value_Cons)
qed

lemma parse_digits_value:
  "0 \<le> n \<Longrightarrow> list_all (\<lambda>c. digit c \<noteq> None) s \<Longrightarrow> digits_value n s \<le> maxUint64
   \<Longrightarrow> parse_digits n s = Inr (digits_value n s)"
proof (induction s arbitrary: n)
  case Nil
  then show ?case by (simp add: digits_value_Nil)
next
  case (Cons c cs)
  then obtain d where d: "digit c = Some d" by auto
  then have r: "0 \<le> d" using digit_range by blast
  have v: "digits_value n (c # cs) = digits_value (n * 10 + d) cs"
    using d by (simp add: digits_value_Cons)
  have m: "n * 10 + d \<le> digits_value (n * 10 + d) cs"
    using digits_value_mono[of "n * 10 + d" cs] Cons.prems r by simp
  then have le: "n * 10 + d \<le> maxUint64" using Cons.prems(3) v by simp
  then have c1: "\<not> n \<ge> maxUint64 div 10 + 1" using r by (simp add: maxUint64_def)
  have "parse_digits (n * 10 + d) cs = Inr (digits_value (n * 10 + d) cs)"
    using Cons.IH[of "n * 10 + d"] Cons.prems r v by simp
  with d le c1 v show ?case by simp
qed

lemma parse_digits_Inr:
  "parse_digits n s = Inr m \<Longrightarrow> list_all (\<lambda>c. digit c \<noteq> None) s \<and> m = digits_value n s"
proof (induction s arbitrary: n)
  case Nil
  then show ?case by (simp add: digits_value_Nil)
next
  case (Cons c cs)
  then show ?case
    by (auto simp: digits_value_Cons split: option.splits if_splits)
qed

lemma parse_digits_bound:
  "parse_digits n s = Inr m \<Longrightarrow> n \<le> maxUint64 \<Longrightarrow> m \<le> maxUint64"
proof (induction s arbitrary: n)
  case Nil
  then show ?case by simp
next
  case (Cons c cs)
  then show ?case
    by (auto split: option.splits if_splits)
qed

lemma ParseUint_value:
  "decimal_digits s \<Longrightarrow> digits_value 0 s \<le> maxUint64 \<Longrightarrow> ParseUint s = Inr (digits_value 0 s)"
  by (simp add: ParseUint_def decimal_digits_def parse_digits_value)

lemma ParseUint_Inr:
  "ParseUint s = Inr m \<Longrightarrow> decimal_digits s \<and> m = digits_value 0 s \<and> 0 \<le> m"
proof -
  assume a: "ParseUint s = Inr m"
  then have ne: "s \<noteq> []" and p: "parse_digits 0 s = Inr m"
    by (auto simp: ParseUint_def split: if_splits)
  from parse_digits_Inr[OF p] have l: "list_all (\<lambda>c. digit c \<noteq> None) s" and v: "m = digits_value 0 s"
    by auto
  from digits_value_mono[of 0 s] l v have "0 \<le> m" by simp
  with ne l v show ?thesis by (simp add: decimal_digits_def)
qed

lemma ParseInt_value:
  assumes "integer_value s = Some n" and "- (2 ^ 63) \<le> n" and "n < 2 ^ 63"
  shows "ParseInt s = Inr n"
proof (cases s)
  case Nil
  with assms show ?thesis by (simp add: integer_value_def)
next
  case (Cons c cs)
  show ?thesis
  proof (cases "c = CHR ''-''")
    case True
    with assms Cons have dd: "decimal_digits cs" and n: "n = - digits_value 0 cs"
      by (auto simp: integer_value_def split: if_splits)
    from n assms(2) have "digits_value 0 cs \<le> maxUint64" by (simp add: maxUint64_def)
    from ParseUint_value[OF dd this] n assms(2) Cons True show ?thesis
      by (simp add: ParseInt_def)
  next
    case False
    note nm = False
    show ?thesis
    proof (cases "c = CHR ''+''")
      case True
      with assms Cons have dd: "decimal_digits cs" and n: "n = digits_value 0 cs"
        by (auto simp: integer_value_def split: if_splits)
      from n assms(3) have "digits_value 0 cs \<le> maxUint64" by (simp add: maxUint64_def)
      from ParseUint_value[OF dd this] n assms(3) Cons True show ?thesis
        by (simp add: ParseInt_def)
    next
      case False
      with nm assms Cons have dd: "decimal_digits s" and n: "n = digits_value 0 s"
        by (auto simp: integer_value_def split: if_splits)
      from n assms(3) have "digits_value 0 s \<le> maxUint64" by (simp add: maxUint64_def)
      from ParseUint_value[OF dd this] n assms(3) Cons False nm show ?thesis
        by (simp add: ParseInt_def)
    qed
  qed
qed

lemma ParseInt_Inr:
  assumes "ParseInt s = Inr n"
  shows "integer_value s = Some n \<and> - (2 ^ 63) \<le> n \<and> n < 2 ^ 63"
proof (cases s)
  case Nil
  with assms show ?thesis by (simp add: ParseInt_def)
next
  case (Cons c cs)
  let ?body = "if c = CHR ''+'' \<or> c = CHR ''-'' then cs else s"
  from assms Cons obtain un where un: "ParseUint ?body = Inr un"
    by (auto simp: ParseInt_def Let_def split: sum.splits num_error.splits if_splits)
  from ParseUint_Inr[OF un] have dd: "decimal_digits ?body" and v: "un = digits_value 0 ?body"
    and nn: "0 \<le> un" by auto
  show ?thesis
  proof (cases "c = CHR ''-''")
    case True
    with assms Cons un dd v nn show ?thesis
      by (auto simp: ParseInt_def Let_def integer_value_def split: if_splits)
  next
    case False
    with assms Cons un dd v nn show ?thesis
      by (auto simp: ParseInt_def Let_def integer_value_def split: if_splits)
  qed
qed




subsection \<open>The export parser\<close>

lemma assetPath_ok:
  "3 \<le> length (Split url ''/'') \<Longrightarrow> assetPath url = Inr (Join (drop 3 (Split url ''/'')) ''/'')"
  by (simp add: assetPath_def Let_def)

lemma processRecords_appends:
  "prefix (Attachments db) (Attachments (snd (processRecords rs db)))"
proof (induction rs arbitrary: db)
  case Nil
  then show ?case by simp
next
  case (Cons r rs)
  show ?case
  proof (cases "processRecord r")
    case (Inl f)
    then show ?thesis by simp
  next
    case (Inr entry)
    show ?thesis
    proof (cases entry)
      case None
      with Inr Cons.IH[of db] show ?thesis by simp
    next
      case (Some a)
      from Cons.IH[of "db\<lparr>Attachments := Attachments db @ [a]\<rparr>"]
      have "prefix (Attachments db @ [a])
              (Attachments (snd (processRecords rs (db\<lparr>Attachments := Attachments db @ [a]\<rparr>))))"
        by simp
      then have "prefix (Attachments db)
              (Attachments (snd (processRecords rs (db\<lparr>Attachments := Attachments db @ [a]\<rparr>))))"
        using append_prefixD by blast
      with Inr Some show ?thesis by simp
    qed
  qed
qed

lemma processEntries_appends:
  "prefix (Attachments db) (Attachments (snd (processEntries entries db)))"
proof (induction entries arbitrary: db)
  case Nil
  then show ?case by simp
next
  case (Cons e entries)
  obtain name content where e: "e = (name, content)" by (cases e) auto
  show ?case
  proof (cases "considered name")
    case False
    with e Cons.IH[of db] show ?thesis by simp
  next
    case True
    show ?thesis
    proof (cases content)
      case Unreadable
      with e True show ?thesis by simp
    next
      case NotJSON
      with e True show ?thesis by simp
    next
      case (Records attachments)
      obtain res db1 where p: "processRecords attachments db = (res, db1)"
        by (cases "processRecords attachments db") auto
      from processRecords_appends[of db attachments] p
      have a: "prefix (Attachments db) (Attachments db1)" by simp
      show ?thesis
      proof (cases res)
        case (Some f)
        with e True Records p a show ?thesis by simp
      next
        case None
        from Cons.IH[of db1] a
        have "prefix (Attachments db) (Attachments (snd (processEntries entries db1)))"
          using prefix_order.trans by blast
        with e True Records p None show ?thesis by simp
      qed
    qed
  qed
qed

text \<open>
  Claim C1, as amended. An export record whose \<open>issue\<close> field is not empty, whose final
  \<open>/\<close>-segment of \<open>issue\<close> has an integer value that fits 64 bits, and whose
  \<open>asset_url\<close> has at least three \<open>/\<close>-segments, gives an attachment of kind
  \<open>issue\<close>: its issue number is that integer value, its relative path the segments of
  \<open>asset_url\<close> from index 3 onward joined with \<open>/\<close>. A file holding just this record
  adds exactly this attachment to the index; whatever records and files follow it, the
  index that the record loop, and the parser on a considered file that starts with the
  record, leave behind holds the attachment right after those that were there before.
\<close>

theorem issue_record_attachment:
  assumes "Issue r \<noteq> []"
    and "integer_value (last (Split (Issue r) ''/'')) = Some n"
    and "- (2 ^ 63) \<le> n" and "n < 2 ^ 63"
    and "3 \<le> length (Split (AssetURL r) ''/'')"
  shows "let a = \<lparr>Type = ''issue'', URL = Issue r, IssueNumber = n, CommentNumber = 0,
                  Path = Join (drop 3 (Split (AssetURL r) ''/'')) ''/''\<rparr>
         in processRecord r = Inr (Some a) \<and>
            processRecords [r] db = (None, db\<lparr>Attachments := Attachments db @ [a]\<rparr>) \<and>
            prefix (Attachments db @ [a]) (Attachments (snd (processRecords (r # rs) db))) \<and>
            (considered name \<longrightarrow>
               prefix (Attachments db @ [a])
                 (Attachments (snd (processAttachments
                    (Some ((name, Records (r # rs)) # entries)) db))))"
proof -
  let ?a = "\<lparr>Type = ''issue'', URL = Issue r, IssueNumber = n, CommentNumber = 0,
              Path = Join (drop 3 (Split (AssetURL r) ''/'')) ''/''\<rparr>"
  let ?db = "db\<lparr>Attachments := Attachments db @ [?a]\<rparr>"
  have p: "ParseInt (last (Split (Issue r) ''/'')) = Inr n"
    using ParseInt_value[OF assms(2) assms(3) assms(4)] .
  have c1: "processRecord r = Inr (Some ?a)"
    using assms(1) p assetPath_ok[OF assms(5)] by (simp add: processRecord_def Let_def)
  have c2: "processRecords [r] db = (None, ?db)" using c1 by simp
  have st: "processRecords (r # rs) db = processRecords rs ?db" using c1 by simp
  have c3: "prefix (Attachments db @ [?a]) (Attachments (snd (processRecords (r # rs) db)))"
    using processRecords_appends[of ?db rs] st by simp
  have c4: "prefix (Attachments db @ [?a])
              (Attachments (snd (processAttachments
                 (Some ((name, Records (r # rs)) # entries)) db)))"
    if cn: "considered name"
  proof -
    obtain res db1 where q: "processRecords (r # rs) db = (res, db1)"
      by (cases "processRecords (r # rs) db") auto
    from c3 q have a: "prefix (Attachments db @ [?a]) (Attachments db1)" by simp
    show ?thesis
    proof (cases res)
      case (Some f)
      with cn q a show ?thesis by (simp add: processAttachments_def)
    next
      case None
      from processEntries_appends[of db1 entries] a
      have "prefix (Attachments db @ [?a]) (Attachments (snd (processEntries entries db1)))"
        using prefix_order.trans by blast
      with cn q None show ?thesis by (simp add: processAttachments_def)
    qed
  qed
  from c1 c2 c3 c4 show ?thesis by (simp add: Let_def)
qed

theorem issue_record_attachment_witness:
  "Issue \<lparr>Issue = ''r/42'', IssueComment = [], AssetURL = ''h://x/a/f.png''\<rparr> \<noteq> [] \<and>
   integer_value (last (Split ''r/42'' ''/'')) = Some 42 \<and>
   3 \<le> length (Split ''h://x/a/f.png'' ''/'') \<and>
   considered ''attachments.json'' \<and>
   processRecord \<lparr>Issue = ''r/42'', IssueComment = [], AssetURL = ''h://x/a/f.png''\<rparr> =
     Inr (Some \<lparr>Type = ''issue'', URL = ''r/42'', IssueNumber = 42, CommentNumber = 0,
                Path = ''a/f.png''\<rparr>) \<and>
   processRecords [\<lparr>Issue = ''r/42'', IssueComment = [], AssetURL = ''h://x/a/f.png''\<rparr>]
       \<lparr>Attachments = [], Issues = Map.empty, Tickets = Map.empty\<rparr> =
     (None,
      \<lparr>Attachments = [\<lparr>Type = ''issue'', URL = ''r/42'', IssueNumber = 42, CommentNumber = 0,
                         Path = ''a/f.png''\<rparr>],
        Issues = Map.empty, Tickets = Map.empty\<rparr>) \<and>
   prefix [\<lparr>Type = ''issue'', URL = ''r/42'', IssueNumber = 42, CommentNumber = 0,
             Path = ''a/f.png''\<rparr>]
     (Attachments (snd (processAttachments
        (Some [(''attachments.json'',
                Records [\<lparr>Issue = ''r/42'', IssueComment = [], AssetURL = ''h://x/a/f.png''\<rparr>])])
        \<lparr>Attachments = [], Issues = Map.empty, Tickets = Map.empty\<rparr>)))"
proof -
  let ?r = "\<lparr>Issue = ''r/42'', IssueComment = [], AssetURL = ''h://x/a/f.png''\<rparr>"
  let ?db = "\<lparr>Attachments = [], Issues = Map.empty, Tickets = Map.empty\<rparr>"
  have a: "Issue ?r \<noteq> []" by simp
  have b: "integer_value (last (Split (Issue ?r) ''/'')) = Some 42" by code_simp
  have c: "3 \<le> length (Split (AssetURL ?r) ''/'')" by code_simp
  have d: "Join (drop 3 (Split (AssetURL ?r) ''/'')) ''/'' = ''a/f.png''" by code_simp
  have e: "considered ''attachments.json''" by code_simp
  have lo: "- (2 ^ 63) \<le> (42::int)" by simp
  have hi: "(42::int) < 2 ^ 63" by simp
  note th = issue_record_attachment[OF a b lo hi c, of ?db "[]" "''attachments.json''" "[]",
      unfolded Let_def]
  let ?a = "\<lparr>Type = ''issue'', URL = Issue ?r, IssueNumber = 42, CommentNumber = 0,
              Path = Join (drop 3 (Split (AssetURL ?r) ''/'')) ''/''\<rparr>"
  have eq: "?a = \<lparr>Type = ''issue'', URL = ''r/42'', IssueNumber = 42, CommentNumber = 0,
                  Path = ''a/f.png''\<rparr>"
    using d by simp
  from th have "processRecord ?r = Inr (Some ?a)" by (rule conjunct1)
  then have t1: "processRecord ?r =
       Inr (Some \<lparr>Type = ''issue'', URL = ''r/42'', IssueNumber = 42, CommentNumber = 0,
                  Path = ''a/f.png''\<rparr>)"
    by (simp only: eq)
  from th have "processRecords [?r] ?db = (None, ?db\<lparr>Attachments := Attachments ?db @ [?a]\<rparr>)"
    by (rule conjunct1[OF conjunct2])
  then have "processRecords [?r] ?db =
     (None, ?db\<lparr>Attachments := Attachments ?db @
        [\<lparr>Type = ''issue'', URL = ''r/42'', IssueNumber = 42, CommentNumber = 0,
          Path = ''a/f.png''\<rparr>]\<rparr>)"
    by (simp only: eq)
  moreover have "?db\<lparr>Attachments := Attachments ?db @
        [\<lparr>Type = ''issue'', URL = ''r/42'', IssueNumber = 42, CommentNumber = 0,
          Path = ''a/f.png''\<rparr>]\<rparr> =
      \<lparr>Attachments = [\<lparr>Type = ''issue'', URL = ''r/42'', IssueNumber = 42, CommentNumber = 0,
                         Path = ''a/f.png''\<rparr>],
        Issues = Map.empty, Tickets = Map.empty\<rparr>"
    by simp
  ultimately have t2: "processRecords [?r] ?db =
     (None,
      \<lparr>Attachments = [\<lparr>Type = ''issue'', URL = ''r/42'', IssueNumber = 42, CommentNumber = 0,
                         Path = ''a/f.png''\<rparr>],
        Issues = Map.empty, Tickets = Map.empty\<rparr>)"
    by (simp only:)
  from th have "considered ''attachments.json'' \<longrightarrow>
      prefix (Attachments ?db @ [?a])
        (Attachments (snd (processAttachments (Some [(''attachments.json'', Records [?r])]) ?db)))"
    by (rule conjunct2[OF conjunct2[OF conjunct2]])
  with e have "prefix (Attachments ?db @ [?a])
        (Attachments (snd (processAttachments (Some [(''attachments.json'', Records [?r])]) ?db)))"
    by (rule rev_mp)
  then have "prefix (Attachments ?db @
        [\<lparr>Type = ''issue'', URL = ''r/42'', IssueNumber = 42, CommentNumber = 0,
          Path = ''a/f.png''\<rparr>])
        (Attachments (snd (processAttachments (Some [(''attachments.json'', Records [?r])]) ?db)))"
    by (simp only: eq)
  moreover have "Attachments ?db @
        [\<lparr>Type = ''issue'', URL = ''r/42'', IssueNumber = 42, CommentNumber = 0,
          Path = ''a/f.png''\<rparr>] =
        [\<lparr>Type = ''issue'', URL = ''r/42'', IssueNumber = 42, CommentNumber = 0,
          Path = ''a/f.png''\<rparr>]"
    by simp
  ultimately have t3: "prefix [\<lparr>Type = ''issue'', URL = ''r/42'', IssueNumber = 42, CommentNumber = 0,
             Path = ''a/f.png''\<rparr>]
     (Attachments (snd (processAttachments (Some [(''attachments.json'', Records [?r])]) ?db)))"
    by (simp only:)
  have a': "Issue ?r \<noteq> []" by simp
  have b': "integer_value (last (Split ''r/42'' ''/'')) = Some 42" by code_simp
  have c': "3 \<le> length (Split ''h://x/a/f.png'' ''/'')" by code_simp
  from a' b' c' e t1 t2 t3 show ?thesis by (intro conjI)
qed

text \<open>
  Claim C1 as it is stated covers every record with a non-empty \<open>issue\<close>. A record
  whose \<open>asset_url\<close> has two segments has a non-empty \<open>issue\<close> with the integer 42 as
  final segment, and the parser panics on the slice \<^verbatim>\<open>[3:]\<close>, leaving no attachment
  in the index; a record whose final segment is the integer \<open>2 ^ 63\<close> gets a range
  error from \<^verbatim>\<open>ParseInt\<close>.
\<close>

theorem issue_record_counterexample:
  "Issue \<lparr>Issue = ''r/42'', IssueComment = [], AssetURL = ''a/b''\<rparr> \<noteq> [] \<and>
   integer_value (last (Split ''r/42'' ''/'')) = Some 42 \<and>
   processRecord \<lparr>Issue = ''r/42'', IssueComment = [], AssetURL = ''a/b''\<rparr> =
     Inl (Panic SliceBoundsOutOfRange) \<and>
   processAttachments
     (Some [(''attachments.json'',
             Records [\<lparr>Issue = ''r/42'', IssueComment = [], AssetURL = ''a/b''\<rparr>])])
     \<lparr>Attachments = [], Issues = Map.empty, Tickets = Map.empty\<rparr> =
     (Some (Panic SliceBoundsOutOfRange),
      \<lparr>Attachments = [], Issues = Map.empty, Tickets = Map.empty\<rparr>) \<and>
   integer_value (last (Split ''r/9223372036854775808'' ''/'')) = Some 9223372036854775808 \<and>
   processRecord
     \<lparr>Issue = ''r/9223372036854775808'', IssueComment = [], AssetURL = ''h://x/a/f.png''\<rparr> =
     Inl (Error (ErrorParsingIssueNumber ''r/9223372036854775808'' ErrRange))"
proof -
  have a: "integer_value (last (Split ''r/42'' ''/'')) = Some 42" by code_simp
  have b: "processRecord \<lparr>Issue = ''r/42'', IssueComment = [], AssetURL = ''a/b''\<rparr> =
     Inl (Panic SliceBoundsOutOfRange)"
    by code_simp
  have c: "considered ''attachments.json''" by code_simp
  have d: "processAttachments
     (Some [(''attachments.json'',
             Records [\<lparr>Issue = ''r/42'', IssueComment = [], AssetURL = ''a/b''\<rparr>])])
     \<lparr>Attachments = [], Issues = Map.empty, Tickets = Map.empty\<rparr> =
     (Some (Panic SliceBoundsOutOfRange),
      \<lparr>Attachments = [], Issues = Map.empty, Tickets = Map.empty\<rparr>)"
    using b c by (simp add: processAttachments_def)
  have e: "integer_value (last (Split ''r/9223372036854775808'' ''/'')) = Some 9223372036854775808"
    by code_simp
  have f: "processRecord
     \<lparr>Issue = ''r/9223372036854775808'', IssueComment = [], AssetURL = ''h://x/a/f.png''\<rparr> =
     Inl (Error (ErrorParsingIssueNumber ''r/9223372036854775808'' ErrRange))"
    by code_simp
  from a b d e f show ?thesis by simp
qed




text \<open>
  Claim C3. For every asset URL the relative path is derived by dropping exactly the first
  three \<open>/\<close>-separated segments, however many segments there are: the derivation
  succeeds on every URL of at least four segments, and its result splits into exactly the
  segments from index 3 onward; whenever it succeeds the result is those segments joined
  with \<open>/\<close>; and it fails only on a URL of fewer than four segments.
\<close>

theorem assetPath_drops_three_segments:
  "(4 \<le> length (Split url ''/'') \<longrightarrow>
      (\<exists>p. assetPath url = Inr p \<and> Split p ''/'' = drop 3 (Split url ''/''))) \<and>
   (\<forall>p. assetPath url = Inr p \<longrightarrow> p = Join (drop 3 (Split url ''/'')) ''/'') \<and>
   (\<forall>f. assetPath url = Inl f \<longrightarrow> length (Split url ''/'') < 4)"
proof (intro conjI impI allI)
  assume len: "4 \<le> length (Split url ''/'')"
  let ?xs = "drop 3 (Split url ''/'')"
  have ne: "?xs \<noteq> []" using len by simp
  have "\<forall>x\<in>set (Split url ''/''). CHR ''/'' \<notin> set x"
    using split1_segments[of "CHR ''/''" "[]" url] by (simp add: Split_def)
  then have seg: "\<forall>x\<in>set ?xs. CHR ''/'' \<notin> set x"
    using in_set_dropD by fast
  have "Split (Join ?xs ''/'') ''/'' = hd ?xs # tl ?xs"
    using split1_Join[OF ne seg, of "[]"] by (simp add: Split_def)
  then have "Split (Join ?xs ''/'') ''/'' = ?xs" using ne by simp
  moreover have "assetPath url = Inr (Join ?xs ''/'')"
    using len by (simp add: assetPath_def Let_def)
  ultimately show "\<exists>p. assetPath url = Inr p \<and> Split p ''/'' = ?xs" by blast
next
  fix p assume "assetPath url = Inr p"
  then show "p = Join (drop 3 (Split url ''/'')) ''/''"
    by (simp add: assetPath_def Let_def split: if_splits)
next
  fix f assume "assetPath url = Inl f"
  then show "length (Split url ''/'') < 4"
    by (simp add: assetPath_def Let_def split: if_splits)
qed

theorem assetPath_drops_three_segments_witness:
  "4 \<le> length (Split ''h://x/a/f.png'' ''/'') \<and>
   (\<exists>p. assetPath ''h://x/a/f.png'' = Inr p \<and> Split p ''/'' = [''a'', ''f.png''])"
proof -
  have h: "4 \<le> length (Split ''h://x/a/f.png'' ''/'')" by code_simp
  have d: "drop 3 (Split ''h://x/a/f.png'' ''/'') = [''a'', ''f.png'']" by code_simp
  from assetPath_drops_three_segments[of "''h://x/a/f.png''"] h d show ?thesis by simp
qed

text \<open>
  A record whose issue number segment is not an integer stops the parse with an error
  that names the offending value.
\<close>

lemma non_integer_issue_number_is_reported:
  assumes "Issue r \<noteq> []" and "integer_value (last (Split (Issue r) ''/'')) = None"
  shows "\<exists>e. processRecord r = Inl (Error (ErrorParsingIssueNumber (Issue r) e))"
proof (cases "ParseInt (last (Split (Issue r) ''/''))")
  case (Inl e)
  with assms(1) show ?thesis by (simp add: processRecord_def Let_def)
next
  case (Inr n)
  from ParseInt_Inr[OF this] assms(2) show ?thesis by simp
qed

lemma processRecords_stops_at_failure:
  "processRecord r = Inl f \<Longrightarrow> processRecords (r # rs) db = (Some f, db)"
  by simp

text \<open>
  Claim C4. A considered file with a malformed record should make the parse return an
  error that names the offending value. For an \<open>issue_comment\<close> without the
  \<^verbatim>\<open>issuecomment-\<close> marker the parser does not return an error: the index expression
  \<^verbatim>\<open>[1]\<close> on the one-element result of the split panics.
\<close>

theorem missing_marker_panics:
  "processAttachments
     (Some [(''attachments.json'',
             Records [\<lparr>Issue = [], IssueComment = ''r/17#comment-99'',
                       AssetURL = ''h://x/a/f.png''\<rparr>])]) db =
   (Some (Panic IndexOutOfRange), db)"
proof -
  have c: "considered ''attachments.json''" by code_simp
  have p: "processRecord \<lparr>Issue = [], IssueComment = ''r/17#comment-99'',
                       AssetURL = ''h://x/a/f.png''\<rparr> = Inl (Panic IndexOutOfRange)"
    by code_simp
  show ?thesis using c p by (simp add: processAttachments_def)
qed

subsection \<open>The remote listers\<close>

text \<open>
  On whichever page it comes, a failure ends the listing with that one request as the
  last: the issue lister turns status 404 into \<open>RepositoryNotFound\<close> and wraps any other
  status with the organisation, the repository and the underlying error; the ticket
  lister wraps every failure with the project key and the underlying error.
\<close>

lemma listIssues_not_found_on_any_page:
  assumes "list_all morePages pre"
  shows "\<exists>db'. listIssues orgName repoName (pre @ GitHubFailure (Some 404) err # rest) page db requested =
           (Returns (Some (Error (RepositoryNotFound orgName repoName))), db',
            requested @ page # List.map (\<lambda>x. case x of GitHubPage iss n \<Rightarrow> n | _ \<Rightarrow> 0) pre)"
  using assms
proof (induction pre arbitrary: page db requested)
  case Nil
  then show ?case by simp
next
  case (Cons x xs)
  then obtain iss n where x: "x = GitHubPage iss n" and n: "n \<noteq> 0" by (cases x) auto
  from Cons.prems have "list_all morePages xs" by simp
  from Cons.IH[OF this, of n "foldl addIssue db iss" "requested @ [page]"] x n
  show ?case by (simp add: Let_def)
qed

lemma listIssues_other_failure_on_any_page:
  assumes "list_all morePages pre" and "status \<noteq> 404"
  shows "\<exists>db' requested'.
           listIssues orgName repoName (pre @ GitHubFailure (Some status) err # rest) page db requested =
           (Returns (Some (Error (FailedListingIssues orgName repoName err))), db', requested') \<and>
           length requested' = length requested + length pre + 1"
  using assms(1)
proof (induction pre arbitrary: page db requested)
  case Nil
  then show ?case using assms(2) by simp
next
  case (Cons x xs)
  then obtain iss n where x: "x = GitHubPage iss n" and n: "n \<noteq> 0" by (cases x) auto
  from Cons.prems have "list_all morePages xs" by simp
  from Cons.IH[OF this, of n "foldl addIssue db iss" "requested @ [page]"] x n
  show ?case by (auto simp add: Let_def)
qed

lemma addTickets_with_fields:
  "list_all (\<lambda>i. Fields i \<noteq> None) issues \<Longrightarrow> \<exists>db'. addTickets db issues = (None, db')"
  by (induction issues arbitrary: db) auto

lemma searchTickets_failure_on_any_page:
  assumes "list_all moreTickets pre"
  shows "\<exists>db' requested'.
           searchTickets key (pre @ JiraFailure resp err # rest) StartAt db requested =
           (Returns (Some (Error (FailedSearchingTickets key err))), db', requested') \<and>
           length requested' = length requested + length pre + 1"
  using assms
proof (induction pre arbitrary: StartAt db requested)
  case Nil
  then show ?case by simp
next
  case (Cons x xs)
  then obtain iss a b c where x: "x = JiraPage iss a b c"
    and fl: "list_all (\<lambda>i. Fields i \<noteq> None) iss" and n: "addInt a b < c"
    by (cases x) auto
  from addTickets_with_fields[OF fl] obtain db1 where a1: "addTickets db iss = (None, db1)"
    by blast
  from Cons.prems have "list_all moreTickets xs" by simp
  from Cons.IH[OF this, of "addInt a b" db1 "requested @ [StartAt]"] x n a1
  show ?case by auto
qed

text \<open>
  Claim C9. A listing page that fails with HTTP 404 should become a distinguished
  not-found error in both listers. The issue lister does that; the ticket lister returns
  the same \<open>FailedSearchingTickets\<close> error for 404 as for any other failure.
\<close>

theorem ticket_lister_does_not_translate_404:
  "processTickets (JiraClient (JiraFailure (Some 404) err # replies)) key db =
     (Returns (Some (Error (FailedSearchingTickets key err))), db, [0]) \<and>
   processIssues (GitHubFailure (Some 404) err # replies') orgName repoName db =
     (Returns (Some (Error (RepositoryNotFound orgName repoName))), db, [1])"
  by (simp add: processTickets_def processIssues_def)

subsection \<open>The collect command\<close>

lemma expanded_collectStages: "expanded (collectStages env ex) = ex"
  by (simp add: collectStages_def stopped_def Let_def
           split: prod.splits option.splits completion.splits)

text \<open>
  Claim C10. With the staging directory there (it existed or was created): if
  skip-extraction is requested and the directory is empty, \<^verbatim>\<open>collect\<close> returns the
  precondition error, has asked neither server for a page and has neither expanded nor
  written anything; if skip-extraction is not requested and the directory is not empty,
  the archive is not expanded.
\<close>

theorem collect_resume_policy:
  assumes "stageExists env \<or> \<not> mkdirFails env"
  shows "(skipArchive env \<and> empty env = Some True \<longrightarrow>
            returned (collect env) = Returns (Some (Error StagingEmptyButSkipArchive)) \<and>
            githubRequests (collect env) = [] \<and> jiraRequests (collect env) = [] \<and>
            \<not> expanded (collect env) \<and> written (collect env) = None) \<and>
         (\<not> skipArchive env \<and> empty env = Some False \<longrightarrow> \<not> expanded (collect env))"
  using assms by (auto simp: collect_def stopped_def expanded_collectStages)

theorem collect_resume_policy_witness:
  "stageExists (exampleRun\<lparr>skipArchive := True, empty := Some True\<rparr>) \<and>
   skipArchive (exampleRun\<lparr>skipArchive := True, empty := Some True\<rparr>) \<and>
   empty (exampleRun\<lparr>skipArchive := True, empty := Some True\<rparr>) = Some True \<and>
   returned (collect (exampleRun\<lparr>skipArchive := True, empty := Some True\<rparr>)) =
     Returns (Some (Error StagingEmptyButSkipArchive)) \<and>
   githubRequests (collect (exampleRun\<lparr>skipArchive := True, empty := Some True\<rparr>)) = [] \<and>
   jiraRequests (collect (exampleRun\<lparr>skipArchive := True, empty := Some True\<rparr>)) = [] \<and>
   stageExists exampleRun \<and> \<not> skipArchive exampleRun \<and> empty exampleRun = Some False \<and>
   \<not> expanded (collect exampleRun)"
proof -
  let ?e = "exampleRun\<lparr>skipArchive := True, empty := Some True\<rparr>"
  have a: "stageExists ?e" by (simp add: exampleRun_def)
  have b: "skipArchive ?e \<and> empty ?e = Some True" by (simp add: exampleRun_def)
  have c: "stageExists exampleRun" by (simp add: exampleRun_def)
  have d: "\<not> skipArchive exampleRun \<and> empty exampleRun = Some False"
    by (simp add: exampleRun_def)
  from collect_resume_policy[of ?e] a b collect_resume_policy[of exampleRun] c d
  show ?thesis by blast
qed

text \<open>What \<^verbatim>\<open>collect\<close> returns does not depend on whether the final write fails.\<close>

lemma collect_returns_whatever_the_write_does:
  "returned (collect (env\<lparr>writeFails := b\<rparr>)) = returned (collect env)"
  by (simp add: collect_def collectStages_def stopped_def Let_def
           split: prod.splits option.splits completion.splits)

text \<open>
  Claim C8. A failing write of the index at the end of \<^verbatim>\<open>collect\<close> should be
  reported. In the run below every stage succeeds and the write fails: \<^verbatim>\<open>collect\<close>
  returns nil, and no index has been written.
\<close>

theorem collect_succeeds_when_the_write_fails:
  "writeFails exampleRun \<and>
   collect exampleRun =
     \<lparr>returned = Returns None, expanded = False, githubRequests = [1], jiraRequests = [0],
       written = None\<rparr>"
proof -
  have c: "considered ''attachments.json''" by code_simp
  show ?thesis
    using c
    by (simp add: exampleRun_def collect_def collectStages_def processAttachments_def
          processIssues_def processTickets_def addInt_def Let_def)
qed

subsection \<open>The upload command\<close>

lemma grows_refl: "grows d d"
  by (simp add: grows_def split: option.splits)

lemma grows_trans: "grows a b \<Longrightarrow> grows b c \<Longrightarrow> grows a c"
  unfolding grows_def
proof (intro allI)
  fix x
  assume ab: "\<forall>x. case Tickets a x of None \<Rightarrow> Tickets b x = None
                | Some t \<Rightarrow> (\<exists>t'. Tickets b x = Some t' \<and> (Uploaded t \<longrightarrow> Uploaded t'))"
    and bc: "\<forall>x. case Tickets b x of None \<Rightarrow> Tickets c x = None
                | Some t \<Rightarrow> (\<exists>t'. Tickets c x = Some t' \<and> (Uploaded t \<longrightarrow> Uploaded t'))"
  from ab[rule_format, of x] bc[rule_format, of x]
  show "case Tickets a x of None \<Rightarrow> Tickets c x = None
        | Some t \<Rightarrow> (\<exists>t'. Tickets c x = Some t' \<and> (Uploaded t \<longrightarrow> Uploaded t'))"
    by (auto split: option.splits)
qed

lemma markTitle_grows: "markTitle title ticket d = Inr d' \<Longrightarrow> grows d d'"
  by (auto simp: markTitle_def grows_def split: option.splits)

lemma pending_grows: "grows d0 d \<Longrightarrow> pending_in d x \<Longrightarrow> pending_in d0 x"
  unfolding grows_def pending_in_def
  by (erule allE[of _ x]) (auto split: option.splits)

lemma uploaded_grows: "grows d0 d \<Longrightarrow> uploaded_in d0 x \<Longrightarrow> uploaded_in d x"
  unfolding grows_def uploaded_in_def
  by (erule allE[of _ x]) (auto split: option.splits)

lemma uploadAttachments_invariant:
  assumes "uploadAttachments markTitle w title ticket issue as s = (r, s')"
    and "grows d0 (inMemory s)" and "file_ok d0 (persisted s)"
  shows "grows d0 (inMemory s') \<and> file_ok d0 (persisted s') \<and>
         (\<exists>new. trace s' = trace s @ new \<and> (\<forall>a\<in>set new. attempt_title a = title))"
  using assms
proof (induction as arbitrary: s)
  case Nil
  then show ?case by simp
next
  case (Cons a as)
  show ?case
  proof (cases "IssueNumber a = Number issue")
    case False
    with Cons.prems have "uploadAttachments markTitle w title ticket issue as s = (r, s')"
      by simp
    from Cons.IH[OF this Cons.prems(2) Cons.prems(3)] show ?thesis .
  next
    case True
    let ?out = "w (length (trace s))"
    let ?at = "Attempt title (Key ticket) (Path a) (last (Split (Path a) ''/'')) ?out"
    let ?s1 = "s\<lparr>trace := trace s @ [?at]\<rparr>"
    have t1: "attempt_title ?at = title" by simp
    show ?thesis
    proof (cases "?out = OpenFails \<or> ?out = PostFails \<or> ?out = BadStatus")
      case True
      with \<open>IssueNumber a = Number issue\<close> Cons.prems(1) have "s' = ?s1"
        by (auto simp: Let_def split: if_splits)
      with Cons.prems(2,3) show ?thesis by simp
    next
      case False
      note nf = False
      show ?thesis
      proof (cases "markTitle title ticket (inMemory s)")
        case (Inl f)
        with nf \<open>IssueNumber a = Number issue\<close> Cons.prems(1) have "s' = ?s1"
          by (auto simp: Let_def split: if_splits)
        with Cons.prems(2,3) show ?thesis by simp
      next
        case (Inr d)
        from markTitle_grows[OF Inr] Cons.prems(2) have g: "grows d0 d"
          using grows_trans by blast
        show ?thesis
        proof (cases "?out = Transferred")
          case False
          with nf Inr \<open>IssueNumber a = Number issue\<close> Cons.prems(1)
          have "s' = ?s1\<lparr>inMemory := d\<rparr> \<or> s' = ?s1\<lparr>inMemory := d, persisted := Garbled\<rparr>"
            by (cases ?out) (auto simp: Let_def split: if_splits)
          with g Cons.prems(3) show ?thesis by (auto simp: file_ok_def)
        next
          case True
          let ?s2 = "?s1\<lparr>inMemory := d, persisted := Index d\<rparr>"
          from True Inr \<open>IssueNumber a = Number issue\<close> Cons.prems(1)
          have run: "uploadAttachments markTitle w title ticket issue as ?s2 = (r, s')"
            by (simp add: Let_def)
          have g2: "grows d0 (inMemory ?s2)" using g by simp
          have f2: "file_ok d0 (persisted ?s2)" using g by (simp add: file_ok_def)
          from Cons.IH[OF run g2 f2] obtain new where
            a: "grows d0 (inMemory s')" and b: "file_ok d0 (persisted s')"
            and c: "trace s' = trace ?s2 @ new" and d: "\<forall>a\<in>set new. attempt_title a = title"
            by blast
          from c have "trace s' = trace s @ (?at # new)" by simp
          moreover from d t1 have "\<forall>a\<in>set (?at # new). attempt_title a = title" by simp
          ultimately show ?thesis using a b by blast
        qed
      qed
    qed
  qed
qed

lemma uploadTickets_invariant:
  assumes "uploadTickets markTitle w ts s = (r, s')"
    and "grows d0 (inMemory s)" and "file_ok d0 (persisted s)"
  shows "grows d0 (inMemory s') \<and> file_ok d0 (persisted s') \<and>
         (\<exists>new. trace s' = trace s @ new \<and> (\<forall>a\<in>set new. pending_in d0 (attempt_title a)))"
  using assms
proof (induction ts arbitrary: s)
  case Nil
  then show ?case by simp
next
  case (Cons title ts)
  show ?case
  proof (cases "Tickets (inMemory s) title")
    case None
    with Cons.prems(1) have "uploadTickets markTitle w ts s = (r, s')" by simp
    from Cons.IH[OF this Cons.prems(2,3)] show ?thesis .
  next
    case (Some ticket)
    note tk = Some
    show ?thesis
    proof (cases "Uploaded ticket \<or> Issues (inMemory s) title = None")
      case True
      with tk Cons.prems(1) have "uploadTickets markTitle w ts s = (r, s')"
        by (auto split: if_splits)
      from Cons.IH[OF this Cons.prems(2,3)] show ?thesis .
    next
      case False
      then obtain issue where iss: "Issues (inMemory s) title = Some issue"
        and nu: "\<not> Uploaded ticket" by auto
      have pd: "pending_in d0 title"
        using pending_grows[OF Cons.prems(2), of title] tk nu by (simp add: pending_in_def)
      obtain r1 s1 where
        ua: "uploadAttachments markTitle w title ticket issue (Attachments (inMemory s)) s = (r1, s1)"
        by fastforce
      from uploadAttachments_invariant[OF ua Cons.prems(2,3)] obtain new1 where
        g1: "grows d0 (inMemory s1)" and f1: "file_ok d0 (persisted s1)"
        and t1: "trace s1 = trace s @ new1" and a1: "\<forall>a\<in>set new1. attempt_title a = title"
        by blast
      from a1 pd have p1: "\<forall>a\<in>set new1. pending_in d0 (attempt_title a)" by simp
      show ?thesis
      proof (cases r1)
        case (Some f)
        with tk nu iss ua Cons.prems(1) have "s' = s1" by simp
        with g1 f1 t1 p1 show ?thesis by blast
      next
        case None
        with tk nu iss ua Cons.prems(1) have "uploadTickets markTitle w ts s1 = (r, s')" by simp
        from Cons.IH[OF this g1 f1] obtain new2 where
          g2: "grows d0 (inMemory s')" and f2: "file_ok d0 (persisted s')"
          and t2: "trace s' = trace s1 @ new2"
          and a2: "\<forall>a\<in>set new2. pending_in d0 (attempt_title a)"
          by blast
        from t1 t2 have "trace s' = trace s @ (new1 @ new2)" by simp
        moreover from p1 a2 have "\<forall>a\<in>set (new1 @ new2). pending_in d0 (attempt_title a)" by auto
        ultimately show ?thesis using g2 f2 by blast
      qed
    qed
  qed
qed

lemma upload_invariant:
  assumes "upload env f = (r, f', tr)" and "file_ok d0 f"
  shows "file_ok d0 f' \<and> (\<forall>a\<in>set tr. \<not> uploaded_in d0 (attempt_title a))"
proof (cases "clientFails env")
  case True
  with assms show ?thesis by (simp add: upload_def upload_with_def)
next
  case False
  show ?thesis
  proof (cases f)
    case Missing
    with False assms show ?thesis by (simp add: upload_def upload_with_def)
  next
    case Garbled
    with False assms show ?thesis by (simp add: upload_def upload_with_def)
  next
    case (Index d)
    let ?s = "\<lparr>inMemory = d, persisted = f, trace = []\<rparr>"
    obtain r1 s1 where ut: "uploadTickets markTitle (world env) (titles env) ?s = (r1, s1)"
      by fastforce
    with False Index assms(1) have e: "f' = persisted s1" "tr = trace s1"
      by (simp_all add: upload_def upload_with_def)
    have g: "grows d d" by (rule grows_refl)
    from uploadTickets_invariant[OF ut, of d] g Index have
      fo: "file_ok d (persisted s1)" and pd: "\<forall>a\<in>set (trace s1). pending_in d (attempt_title a)"
      by (auto simp: file_ok_def)
    from assms(2) Index have g0: "grows d0 d" by (simp add: file_ok_def)
    have "file_ok d0 (persisted s1)"
      using fo g0 grows_trans by (auto simp: file_ok_def split: index_file.splits)
    moreover have "\<forall>a\<in>set (trace s1). \<not> uploaded_in d0 (attempt_title a)"
    proof
      fix a assume "a \<in> set (trace s1)"
      with pd have "pending_in d (attempt_title a)" by simp
      then have "\<not> uploaded_in d (attempt_title a)"
        by (auto simp: pending_in_def uploaded_in_def split: option.splits)
      with uploaded_grows[OF g0] show "\<not> uploaded_in d0 (attempt_title a)" by blast
    qed
    ultimately show ?thesis using e by simp
  qed
qed

lemma upload_pending_only:
  assumes "upload env (Index d) = (r, f', tr)"
  shows "\<forall>a\<in>set tr. pending_in d (attempt_title a)"
proof (cases "clientFails env")
  case True
  with assms show ?thesis by (simp add: upload_def upload_with_def)
next
  case False
  let ?s = "\<lparr>inMemory = d, persisted = Index d, trace = []\<rparr>"
  obtain r1 s1 where ut: "uploadTickets markTitle (world env) (titles env) ?s = (r1, s1)"
    by fastforce
  with False assms(1) have e: "tr = trace s1"
    by (simp_all add: upload_def upload_with_def)
  from uploadTickets_invariant[OF ut, of d] grows_refl[of d] e show ?thesis
    by (auto simp: file_ok_def)
qed

lemma reruns_skip_uploaded:
  assumes "file_ok d0 f"
  shows "\<forall>tr\<in>set (reruns envs f). \<forall>a\<in>set tr. \<not> uploaded_in d0 (attempt_title a)"
  using assms
proof (induction envs arbitrary: f)
  case Nil
  then show ?case by simp
next
  case (Cons env envs)
  obtain r f' tr where u: "upload env f = (r, f', tr)" by (cases "upload env f") auto
  from upload_invariant[OF u Cons.prems] have fo: "file_ok d0 f'"
    and tr: "\<forall>a\<in>set tr. \<not> uploaded_in d0 (attempt_title a)" by auto
  from Cons.IH[OF fo] tr u show ?case by simp
qed

lemma name_a: "last (Split ''x/a.png'' ''/'') = ''a.png''" by code_simp
lemma name_b: "last (Split ''x/b.png'' ''/'') = ''b.png''" by code_simp

text \<open>
  Claim C6. For an index with finitely many tickets, every attachment that a run of
  \<^verbatim>\<open>upload\<close> tries to transfer belongs to a ticket that was pending in the index the
  run started from, so the tickets it touches number at most \<open>N - K\<close>; and in any
  sequence of runs, each starting from the file the run before left, no attachment is
  tried for a ticket that the first index marks uploaded.
\<close>

theorem upload_resumes:
  assumes "finite (dom (Tickets d))"
  shows "(\<forall>a\<in>set (snd (snd (upload env (Index d)))). pending_in d (attempt_title a)) \<and>
         card (attempt_title ` set (snd (snd (upload env (Index d)))))
           \<le> card (dom (Tickets d)) - card {x. uploaded_in d x} \<and>
         (\<forall>tr\<in>set (reruns envs (Index d)). \<forall>a\<in>set tr. \<not> uploaded_in d (attempt_title a))"
proof (intro conjI)
  obtain r f' tr where u: "upload env (Index d) = (r, f', tr)"
    by (cases "upload env (Index d)") auto
  from upload_pending_only[OF u] have p: "\<forall>a\<in>set tr. pending_in d (attempt_title a)" .
  with u show "\<forall>a\<in>set (snd (snd (upload env (Index d)))). pending_in d (attempt_title a)"
    by simp
  let ?U = "{x. uploaded_in d x}"
  have sub: "?U \<subseteq> dom (Tickets d)"
    by (auto simp: uploaded_in_def split: option.splits)
  have "attempt_title ` set tr \<subseteq> dom (Tickets d) - ?U"
    using p by (auto simp: pending_in_def uploaded_in_def split: option.splits)
  then have "card (attempt_title ` set tr) \<le> card (dom (Tickets d) - ?U)"
    using assms by (simp add: card_mono)
  also have "\<dots> = card (dom (Tickets d)) - card ?U"
    using assms sub by (simp add: card_Diff_subset finite_subset)
  finally show "card (attempt_title ` set (snd (snd (upload env (Index d)))))
           \<le> card (dom (Tickets d)) - card {x. uploaded_in d x}"
    using u by simp
  have "file_ok d (Index d)" by (simp add: file_ok_def grows_refl)
  from reruns_skip_uploaded[OF this]
  show "\<forall>tr\<in>set (reruns envs (Index d)). \<forall>a\<in>set tr. \<not> uploaded_in d (attempt_title a)" .
qed

lemma upload_index1:
  "snd (snd (upload (allTransferred [''A'', ''B'']) (Index index1))) =
     [Attempt ''B'' ''K-2'' ''x/b.png'' ''b.png'' Transferred]"
  by (simp add: upload_def upload_with_def allTransferred_def index1_def markTitle_def
        Let_def name_b)

theorem upload_resumes_witness:
  "finite (dom (Tickets index1)) \<and>
   snd (snd (upload (allTransferred [''A'', ''B'']) (Index index1))) =
     [Attempt ''B'' ''K-2'' ''x/b.png'' ''b.png'' Transferred] \<and>
   reruns [allTransferred [''A'', ''B'']] (Index index1) =
     [[Attempt ''B'' ''K-2'' ''x/b.png'' ''b.png'' Transferred]] \<and>
   uploaded_in index1 ''A'' \<and> pending_in index1 ''B'' \<and> \<not> uploaded_in index1 ''B''"
proof -
  have f: "finite (dom (Tickets index1))" by (simp add: index1_def)
  have a: "uploaded_in index1 ''A''" by (simp add: uploaded_in_def index1_def)
  have r: "reruns [allTransferred [''A'', ''B'']] (Index index1) =
     [[Attempt ''B'' ''K-2'' ''x/b.png'' ''b.png'' Transferred]]"
    using upload_index1 by (cases "upload (allTransferred [''A'', ''B'']) (Index index1)") simp
  note th = upload_resumes[OF f, of "allTransferred [''A'', ''B'']" "[allTransferred [''A'', ''B'']]"]
  from th have "\<forall>a\<in>set (snd (snd (upload (allTransferred [''A'', ''B'']) (Index index1)))).
      pending_in index1 (attempt_title a)"
    by blast
  then have p: "pending_in index1 ''B''" by (simp add: upload_index1)
  from th have "\<forall>tr\<in>set (reruns [allTransferred [''A'', ''B'']] (Index index1)).
      \<forall>a\<in>set tr. \<not> uploaded_in index1 (attempt_title a)"
    by blast
  then have n: "\<not> uploaded_in index1 ''B''" by (simp only: r) simp
  from f a r upload_index1 p n show ?thesis by blast
qed

text \<open>
  Claim C5. A ticket should be marked uploaded only after all attachments of its issue
  are transferred. Below, the issue of the one ticket has two attachments, the first is
  transferred and the second cannot be opened: the run ends in an error with the ticket
  marked uploaded in the file, and the next run, in which every transfer would succeed,
  skips the ticket, so the second attachment is never transferred.
\<close>

theorem ticket_marked_after_first_transfer:
  "upload (secondOpenFails [''T'']) (Index index2) =
     (Some (Error FailedOpeningAttachment),
      Index (index2\<lparr>Tickets := [''T'' \<mapsto> \<lparr>Key = ''PROJ-7'', Uploaded = True\<rparr>]\<rparr>),
      [Attempt ''T'' ''PROJ-7'' ''x/a.png'' ''a.png'' Transferred,
       Attempt ''T'' ''PROJ-7'' ''x/b.png'' ''b.png'' OpenFails]) \<and>
   reruns [secondOpenFails [''T''], allTransferred [''T'']] (Index index2) =
     [[Attempt ''T'' ''PROJ-7'' ''x/a.png'' ''a.png'' Transferred,
       Attempt ''T'' ''PROJ-7'' ''x/b.png'' ''b.png'' OpenFails], []]"
proof -
  have u: "upload (secondOpenFails [''T'']) (Index index2) =
     (Some (Error FailedOpeningAttachment),
      Index (index2\<lparr>Tickets := [''T'' \<mapsto> \<lparr>Key = ''PROJ-7'', Uploaded = True\<rparr>]\<rparr>),
      [Attempt ''T'' ''PROJ-7'' ''x/a.png'' ''a.png'' Transferred,
       Attempt ''T'' ''PROJ-7'' ''x/b.png'' ''b.png'' OpenFails])"
    by (simp add: upload_def upload_with_def secondOpenFails_def index2_def markTitle_def
          Let_def name_a name_b)
  have v: "upload (allTransferred [''T''])
             (Index (index2\<lparr>Tickets := [''T'' \<mapsto> \<lparr>Key = ''PROJ-7'', Uploaded = True\<rparr>]\<rparr>)) =
           (None, Index (index2\<lparr>Tickets := [''T'' \<mapsto> \<lparr>Key = ''PROJ-7'', Uploaded = True\<rparr>]\<rparr>), [])"
    by (simp add: upload_def upload_with_def allTransferred_def index2_def)
  from u v show ?thesis by simp
qed

text \<open>
  Claim C7. The two versions of \<^verbatim>\<open>upload\<close> should mark the same ticket record. On
  an index whose one ticket has a key different from its title, with every transfer
  succeeding, the version of \<^verbatim>\<open>main.go\<close> transfers both attachments and marks the
  ticket; the other version looks the ticket up under its key, finds nothing and panics
  after the first transfer, leaving the file as it was.
\<close>

theorem upload_versions_differ:
  "upload (allTransferred [''T'']) (Index index2) =
     (None,
      Index (index2\<lparr>Tickets := [''T'' \<mapsto> \<lparr>Key = ''PROJ-7'', Uploaded = True\<rparr>]\<rparr>),
      [Attempt ''T'' ''PROJ-7'' ''x/a.png'' ''a.png'' Transferred,
       Attempt ''T'' ''PROJ-7'' ''x/b.png'' ''b.png'' Transferred]) \<and>
   upload_variant (allTransferred [''T'']) (Index index2) =
     (Some (Panic NilPointerDereference), Index index2,
      [Attempt ''T'' ''PROJ-7'' ''x/a.png'' ''a.png'' Transferred])"
proof -
  have u: "upload (allTransferred [''T'']) (Index index2) =
     (None,
      Index (index2\<lparr>Tickets := [''T'' \<mapsto> \<lparr>Key = ''PROJ-7'', Uploaded = True\<rparr>]\<rparr>),
      [Attempt ''T'' ''PROJ-7'' ''x/a.png'' ''a.png'' Transferred,
       Attempt ''T'' ''PROJ-7'' ''x/b.png'' ''b.png'' Transferred])"
    by (simp add: upload_def upload_with_def allTransferred_def index2_def markTitle_def
          Let_def name_a name_b)
  have v: "upload_variant (allTransferred [''T'']) (Index index2) =
     (Some (Panic NilPointerDereference), Index index2,
      [Attempt ''T'' ''PROJ-7'' ''x/a.png'' ''a.png'' Transferred])"
    by (simp add: upload_variant_def upload_with_def allTransferred_def index2_def markKey_def
          Let_def name_a name_b)
  from u v show ?thesis by simp
qed

end
